theory Spec2Isabelle
  imports Complex_Main "HOL-Library.Word" "HOL-Library.Log_Nat"
begin

text \<open>
  A shallow embedding of the card pipeline of hybrid_figma_api.js: the text layout of
  createTextSvg with its word wrap, the lookup of a template, processCard and
  processBatch. Numbers are binary64 values, strings are sequences of UTF-16 code units,
  a thrown error is a value, and a method is a function of the world it runs in. The
  services the pipeline calls (the design tool, sharp, the image host, the file system,
  the clock and the timer) are parameters of the model.
\<close>

section \<open>JavaScript values used by hybrid_figma_api.js\<close>

subsection \<open>Numbers\<close>

text \<open>
  A JavaScript number is an IEEE 754 binary64 value. The finite ones are carried by the
  rational they denote; \<open>-0\<close> is identified with \<open>0\<close> (the numbers of this program come
  from pixel dimensions and are never negative, so a negative zero does not arise).
\<close>

datatype number = NaN | PosInf | NegInf | Fin rat

text \<open>Rounding to the nearest integer, ties to the even one.\<close>

definition round_half_even :: "rat \<Rightarrow> int" where
  "round_half_even x =
     (let f = \<lfloor>x\<rfloor>; d = x - of_int f
      in if d < 1 / 2 then f else if 1 / 2 < d then f + 1 else if even f then f else f + 1)"

text \<open>The binary exponent \<open>\<lfloor>log\<^sub>2 x\<rfloor>\<close> of a positive rational.\<close>

definition expo :: "rat \<Rightarrow> int" where
  "expo x =
     (let p = fst (quotient_of x); q = snd (quotient_of x); d = bitlen p - bitlen q
      in if 2 powi d \<le> x then d else d - 1)"

text \<open>
  Rounding a rational to binary64, to nearest and ties to even: 53 significant bits,
  the exponent not below \<open>-1022\<close> (subnormal numbers), overflow to an infinity.
\<close>

definition round64 :: "rat \<Rightarrow> number" where
  "round64 x =
     (if x = 0 then Fin 0
      else let a = \<bar>x\<bar>; e = max (expo a) (- 1022); u = 2 powi (e - 52);
               y = of_int (round_half_even (a / u)) * u
           in if 2 powi 1024 \<le> y then (if 0 < x then PosInf else NegInf)
              else Fin (if 0 < x then y else - y))"

text \<open>A decimal literal of the source denotes the binary64 value nearest to it.\<close>

definition lit :: "rat \<Rightarrow> number" where
  "lit q = round64 q"

fun jneg :: "number \<Rightarrow> number" where
  "jneg NaN = NaN"
| "jneg PosInf = NegInf"
| "jneg NegInf = PosInf"
| "jneg (Fin a) = Fin (- a)"

fun jmul :: "number \<Rightarrow> number \<Rightarrow> number" where
  "jmul (Fin a) (Fin b) = round64 (a * b)"
| "jmul NaN y = NaN"
| "jmul x NaN = NaN"
| "jmul (Fin a) y = (if a = 0 then NaN else if 0 < a then y else jneg y)"
| "jmul x (Fin b) = (if b = 0 then NaN else if 0 < b then x else jneg x)"
| "jmul PosInf y = y"
| "jmul NegInf y = jneg y"

fun jdiv :: "number \<Rightarrow> number \<Rightarrow> number" where
  "jdiv (Fin a) (Fin b) =
     (if b = 0 then (if a = 0 then NaN else if 0 < a then PosInf else NegInf)
      else round64 (a / b))"
| "jdiv NaN y = NaN"
| "jdiv x NaN = NaN"
| "jdiv (Fin a) y = Fin 0"
| "jdiv x (Fin b) = (if 0 \<le> b then x else jneg x)"
| "jdiv x y = NaN"

fun jadd :: "number \<Rightarrow> number \<Rightarrow> number" where
  "jadd (Fin a) (Fin b) = round64 (a + b)"
| "jadd NaN y = NaN"
| "jadd x NaN = NaN"
| "jadd (Fin a) y = y"
| "jadd x (Fin b) = x"
| "jadd x y = (if x = y then x else NaN)"

text \<open>\<open>Math.round\<close> (ties towards \<open>+\<infinity>\<close>) and \<open>Math.floor\<close>.\<close>

fun math_round :: "number \<Rightarrow> number" where
  "math_round (Fin x) = Fin (of_int \<lfloor>x + 1 / 2\<rfloor>)"
| "math_round x = x"

fun math_floor :: "number \<Rightarrow> number" where
  "math_floor (Fin x) = Fin (of_int \<lfloor>x\<rfloor>)"
| "math_floor x = x"

text \<open>\<open>n > m\<close> for a string length \<open>n\<close>; every comparison with \<open>NaN\<close> is false.\<close>

fun length_gt :: "nat \<Rightarrow> number \<Rightarrow> bool" where
  "length_gt n (Fin m) = (m < of_nat n)"
| "length_gt n NegInf = True"
| "length_gt n x = False"

subsection \<open>Strings\<close>

text \<open>A JavaScript string is a sequence of UTF-16 code units; \<open>length\<close> counts them.\<close>

type_synonym char16 = "16 word"
type_synonym jsstring = "char16 list"

definition js :: "string \<Rightarrow> jsstring" where
  "js s = map of_char s"

definition SP :: char16 where
  "SP = 0x20"

text \<open>
  The code units which \<open>String.prototype.trim\<close> strips (and \<open>\s\<close> matches): the
  WhiteSpace and LineTerminator productions of ECMAScript.
\<close>

definition is_ws :: "char16 \<Rightarrow> bool" where
  "is_ws c =
     (c = 0x9 \<or> c = 0xA \<or> c = 0xB \<or> c = 0xC \<or> c = 0xD \<or> c = 0x20 \<or> c = 0xA0
      \<or> c = 0x1680 \<or> (0x2000 \<le> c \<and> c \<le> 0x200A) \<or> c = 0x2028 \<or> c = 0x2029
      \<or> c = 0x202F \<or> c = 0x205F \<or> c = 0x3000 \<or> c = 0xFEFF)"

definition trim :: "jsstring \<Rightarrow> jsstring" where
  "trim s = rev (dropWhile is_ws (rev (dropWhile is_ws s)))"

text \<open>
  \<open>s.split(sep)\<close> for a one-unit separator, generalised to a predicate: the pieces
  between the separators, an empty piece included; never the empty array.
\<close>

fun splitp :: "(char16 \<Rightarrow> bool) \<Rightarrow> jsstring \<Rightarrow> jsstring list" where
  "splitp P [] = [[]]"
| "splitp P (c # cs) =
     (if P c then [] # splitp P cs
      else (case splitp P cs of [] \<Rightarrow> [[c]] | w # ws \<Rightarrow> (c # w) # ws))"

definition split_sp :: "jsstring \<Rightarrow> jsstring list" where
  "split_sp text = splitp (\<lambda>c. c = SP) text"

text \<open>\<open>s.replace(/c/g, r)\<close> for one code unit \<open>c\<close>.\<close>

definition replaceAll :: "char16 \<Rightarrow> jsstring \<Rightarrow> jsstring \<Rightarrow> jsstring" where
  "replaceAll c r s = concat (map (\<lambda>x. if x = c then r else [x]) s)"

subsection \<open>Values\<close>

text \<open>
  The values a field of a request body can hold. \<open>Undefined\<close> is an absent field.
  \<open>Obj\<close> is an object or an array, of which only the outcome of \<open>ToString\<close> matters
  here (it is also the property key the value is used as): \<open>Obj (Some s)\<close> when the
  conversion gives the string \<open>s\<close>, and \<open>Obj None\<close> when it throws a TypeError.
  The members of a JSON body are data, so an object with a member \<open>toString\<close> (the body
  \<open>{"toString": 1}\<close>) has no callable \<open>toString\<close>, its \<open>valueOf\<close> returns the object
  itself, and the conversion throws; so it does for an array that holds such an object.
\<close>

datatype jsval = Undefined | Null | Bool bool | Num number | Str jsstring | Obj "jsstring option"

fun truthy :: "jsval \<Rightarrow> bool" where
  "truthy Undefined = False"
| "truthy Null = False"
| "truthy (Bool b) = b"
| "truthy (Num n) = (n \<noteq> NaN \<and> n \<noteq> Fin 0)"
| "truthy (Str s) = (s \<noteq> [])"
| "truthy (Obj s) = True"

text \<open>The operator \<open>a || b\<close>.\<close>

definition js_or :: "jsval \<Rightarrow> jsval \<Rightarrow> jsval" where
  "js_or a b = (if truthy a then a else b)"

text \<open>Whether \<open>ToString\<close> of a value returns.\<close>

fun stringable :: "jsval \<Rightarrow> bool" where
  "stringable (Obj None) = False"
| "stringable v = True"

subsection \<open>Errors and effects\<close>

text \<open>
  What a \<open>catch\<close> of this program can receive, standing for the error's \<open>message\<close>:
  a TypeError of the engine (with the member that could not be read or called), the
  two errors the source constructs itself, and an error raised by a library
  (axios, sharp, fs) with its message.
\<close>

datatype error =
    TypeError string
  | NoImageUrl
  | InvalidCloudinaryUrl
  | LibraryError jsstring

text \<open>
  A method runs in a world \<open>'w\<close>: the instance, the environment of the process, the
  clock, the file system and the network. It returns an error or a value, and the world
  after it.
\<close>

type_synonym ('a, 'w) io = "'w \<Rightarrow> (error + 'a) \<times> 'w"

definition ret :: "'a \<Rightarrow> ('a, 'w) io" where
  "ret x w = (Inr x, w)"

definition throw :: "error \<Rightarrow> ('a, 'w) io" where
  "throw e w = (Inl e, w)"

definition bindE :: "('a, 'w) io \<Rightarrow> ('a \<Rightarrow> ('b, 'w) io) \<Rightarrow> ('b, 'w) io" where
  "bindE m f w = (case m w of (Inl e, w') \<Rightarrow> (Inl e, w') | (Inr x, w') \<Rightarrow> f x w')"

text \<open>\<open>try { m } catch (e) { h e }\<close>: an error which the handler throws leaves it.\<close>

definition catchE :: "('a, 'w) io \<Rightarrow> (error \<Rightarrow> ('a, 'w) io) \<Rightarrow> ('a, 'w) io" where
  "catchE m h w = (case m w of (Inl e, w') \<Rightarrow> h e w' | (Inr x, w') \<Rightarrow> (Inr x, w'))"

text \<open>A computation that does not touch the world.\<close>

definition liftE :: "error + 'a \<Rightarrow> ('a, 'w) io" where
  "liftE r w = (r, w)"

text \<open>
  A template literal with the value \<open>v\<close> in it, written to the console: the text is
  not kept, but the conversion of \<open>v\<close> to a string can throw.
\<close>

definition interpolate :: "jsval \<Rightarrow> error + unit" where
  "interpolate v = (if stringable v then Inr () else Inl (TypeError ''toString''))"

section \<open>createTextSvg\<close>

text \<open>escapeXml (lines 76-83): five replacements, in the order of the source.\<close>

definition escapeXml :: "jsstring \<Rightarrow> jsstring" where
  "escapeXml text =
     replaceAll 0x27 (js ''&apos;'')
       (replaceAll 0x22 (js ''&quot;'')
         (replaceAll 0x3E (js ''&gt;'')
           (replaceAll 0x3C (js ''&lt;'')
             (replaceAll 0x26 (js ''&amp;'') text))))"

text \<open>
  wrapText (lines 90-109). \<open>wrapStep\<close> is the body of the \<open>forEach\<close> on the pair
  \<open>(lines, currentLine)\<close>; a string is truthy when it is not empty.
\<close>

definition wrapStep ::
  "number \<Rightarrow> jsstring list \<times> jsstring \<Rightarrow> jsstring \<Rightarrow> jsstring list \<times> jsstring" where
  "wrapStep maxChars st word =
     (case st of (lines, currentLine) \<Rightarrow>
        if length_gt (length (currentLine @ word)) maxChars
        then ((if currentLine \<noteq> [] then lines @ [trim currentLine] else lines), word @ [SP])
        else (lines, currentLine @ word @ [SP]))"

definition wrapWords :: "number \<Rightarrow> jsstring list \<Rightarrow> jsstring list" where
  "wrapWords maxChars words =
     (case foldl (wrapStep maxChars) ([], []) words of (lines, currentLine) \<Rightarrow>
        if currentLine \<noteq> [] then lines @ [trim currentLine] else lines)"

definition maxCharsOf :: "number \<Rightarrow> number \<Rightarrow> number" where
  "maxCharsOf maxWidth fontSize =
     (let charWidth = jmul fontSize (lit (6 / 10)) in math_floor (jdiv maxWidth charWidth))"

definition wrapText :: "jsstring \<Rightarrow> number \<Rightarrow> number \<Rightarrow> jsstring list" where
  "wrapText text maxWidth fontSize =
     (let words = split_sp text; maxChars = maxCharsOf maxWidth fontSize
      in wrapWords maxChars words)"

text \<open>
  The overlay which createTextSvg (lines 68-160) builds: the values interpolated into
  the SVG template, in the order of the template. The text of the template between
  them is constant.
\<close>

record text_element =
  xPos :: number
  yPos :: number
  classes :: string
  content :: jsstring

record svg_overlay =
  svgWidth :: number
  svgHeight :: number
  headerFontSize :: number
  promoFontSize :: number
  texts :: "text_element list"

text \<open>
  The dimensions are the pixel counts which sharp reports for the base image, far below
  \<open>2\<^sup>5\<^sup>3\<close>, where every natural number is a binary64 value.
\<close>

definition px :: "nat \<Rightarrow> number" where
  "px n = Fin (of_nat n)"

definition headerFontSizeOf :: "nat \<Rightarrow> number" where
  "headerFontSizeOf width = math_round (jmul (px width) (lit (6 / 100)))"

definition promoFontSizeOf :: "nat \<Rightarrow> number" where
  "promoFontSizeOf width = math_round (jmul (px width) (lit (4 / 100)))"

text \<open>
  \<open>promoLines\<close> (line 112); \<open>text.split\<close> is a TypeError unless the text is a string.
\<close>

fun promoLinesOf :: "jsval \<Rightarrow> nat \<Rightarrow> error + jsstring list" where
  "promoLinesOf (Str promoText) width =
     Inr (wrapText promoText (jmul (px width) (lit (8 / 10))) (promoFontSizeOf width))"
| "promoLinesOf v width = Inl (TypeError ''split'')"

fun escapeXmlOf :: "jsval \<Rightarrow> error + jsstring" where
  "escapeXmlOf (Str text) = Inr (escapeXml text)"
| "escapeXmlOf v = Inl (TypeError ''replace'')"

definition promoElements :: "number \<Rightarrow> number \<Rightarrow> number \<Rightarrow> jsstring list \<Rightarrow> text_element list" where
  "promoElements promoX promoY lineHeight promoLines =
     map (\<lambda>(index, line).
            \<lparr>xPos = promoX, yPos = jadd promoY (jmul (px index) lineHeight),
             classes = ''promo'', content = escapeXml line\<rparr>)
         (enumerate 0 promoLines)"

definition createTextSvg :: "jsval \<Rightarrow> jsval \<Rightarrow> nat \<Rightarrow> nat \<Rightarrow> error + svg_overlay" where
  "createTextSvg headerText promoText width height =
     (let headerX = jdiv (px width) (Fin 2);
          headerY = jmul (px height) (lit (3 / 10));
          promoX = jdiv (px width) (Fin 2);
          promoY = jmul (px height) (lit (6 / 10));
          lineHeight = jmul (promoFontSizeOf width) (lit (13 / 10))
      in case promoLinesOf promoText width of
           Inl e \<Rightarrow> Inl e
         | Inr promoLines \<Rightarrow>
             (case escapeXmlOf headerText of
                Inl e \<Rightarrow> Inl e
              | Inr escaped \<Rightarrow>
                  Inr \<lparr>svgWidth = px width, svgHeight = px height,
                       headerFontSize = headerFontSizeOf width,
                       promoFontSize = promoFontSizeOf width,
                       texts =
                         [\<lparr>xPos = jadd headerX (Fin 2), yPos = jadd headerY (Fin 2),
                           classes = ''header shadow'', content = escaped\<rparr>,
                          \<lparr>xPos = headerX, yPos = headerY, classes = ''header'', content = escaped\<rparr>]
                         @ promoElements promoX promoY lineHeight promoLines\<rparr>))"

section \<open>The remote services\<close>

type_synonym buffer = "8 word list"

text \<open>
  \<open>CLOUDINARY_URL\<close> (line 13) as \<open>uploadToCloudinary\<close> sees it: not set, set to a
  string the pattern of line 202 does not match, or matched, with the cloud name.
\<close>

datatype cloudinary_url = Unset | Malformed | Cloud jsstring

text \<open>An upload's file name (line 272): the clock's value and the slice of the header.\<close>

record filename =
  stamp :: nat
  slug :: jsstring

text \<open>
  The calls which leave the program, each a function of the world: the two requests of
  \<open>exportFigmaComponent\<close> (the first answers with the entry of the response's \<open>images\<close>
  table for the node, \<open>Undefined\<close> when the table or the entry is missing), sharp's
  \<open>metadata\<close> and \<open>composite\<close>, the upload request (answering with the member
  \<open>secure_url\<close> of the response's body, whatever it is: \<open>Undefined\<close> when the body has
  none), \<open>fs.writeFile\<close>, the clock and the timer; and the two settings read from the
  environment of the process. A call that fails throws an error object.
\<close>

record 'w services =
  figmaImages :: "jsval \<Rightarrow> nat \<Rightarrow> (jsval, 'w) io"
  download :: "jsval \<Rightarrow> (buffer, 'w) io"
  sharpMetadata :: "buffer \<Rightarrow> (nat \<times> nat, 'w) io"
  sharpComposite :: "buffer \<Rightarrow> svg_overlay \<Rightarrow> (buffer, 'w) io"
  cloudinaryPost :: "jsstring \<Rightarrow> buffer \<Rightarrow> filename \<Rightarrow> (jsval, 'w) io"
  writeFile :: "string \<Rightarrow> buffer \<Rightarrow> (unit, 'w) io"
  dateNow :: "'w \<Rightarrow> nat \<times> 'w"
  sleep :: "nat \<Rightarrow> 'w \<Rightarrow> 'w"
  CLOUDINARY_URL :: cloudinary_url
  development :: bool

text \<open>exportFigmaComponent (lines 33-65); its \<open>catch\<close> throws the error again.\<close>

definition exportFigmaComponent :: "'w services \<Rightarrow> jsval \<Rightarrow> nat \<Rightarrow> (buffer, 'w) io" where
  "exportFigmaComponent sv nodeId scale =
     bindE (figmaImages sv nodeId scale)
       (\<lambda>imageUrl. if \<not> truthy imageUrl then throw NoImageUrl else download sv imageUrl)"

text \<open>addTextOverlay (lines 163-195).\<close>

definition addTextOverlay ::
  "'w services \<Rightarrow> buffer \<Rightarrow> jsval \<Rightarrow> jsval \<Rightarrow> jsval \<Rightarrow> (buffer, 'w) io" where
  "addTextOverlay sv imageBuffer headerText promoText templateType =
     bindE (sharpMetadata sv imageBuffer)
       (\<lambda>(width, height).
          bindE (liftE (createTextSvg headerText promoText width height))
            (\<lambda>svgBuffer. sharpComposite sv imageBuffer svgBuffer))"

text \<open>
  uploadToCloudinary (lines 198-239): line 231 returns \<open>response.data.secure_url\<close> as
  it is; its \<open>catch\<close> throws the error again.
\<close>

definition uploadToCloudinary :: "'w services \<Rightarrow> buffer \<Rightarrow> filename \<Rightarrow> (jsval, 'w) io" where
  "uploadToCloudinary sv imageBuffer name =
     (case CLOUDINARY_URL sv of
        Unset \<Rightarrow> throw (TypeError ''match'')
      | Malformed \<Rightarrow> throw InvalidCloudinaryUrl
      | Cloud cloudName \<Rightarrow> cloudinaryPost sv cloudName imageBuffer name)"

section \<open>Template resolution\<close>

text \<open>
  \<open>TEMPLATE_CONFIG\<close> (lines 16-23) is an object literal: a key is looked up among its
  own properties and then in \<open>Object.prototype\<close>, whose members are functions, and the
  prototype object itself under \<open>__proto__\<close>.
\<close>

definition TEMPLATE_CONFIG :: "(jsstring \<times> jsstring) list" where
  "TEMPLATE_CONFIG = [(js ''default'', js ''1:14''), (js ''sale'', js ''1:14'')]"

definition Object_prototype :: "jsstring list" where
  "Object_prototype =
     map js [''constructor'', ''__defineGetter__'', ''__defineSetter__'', ''hasOwnProperty'',
             ''__lookupGetter__'', ''__lookupSetter__'', ''isPrototypeOf'',
             ''propertyIsEnumerable'', ''toString'', ''valueOf'', ''__proto__'',
             ''toLocaleString'']"

text \<open>
  The value of \<open>TEMPLATE_CONFIG[key]\<close>: an entry of the table (with its key and its
  \<open>nodeId\<close>), a member of the prototype, or \<open>undefined\<close>.
\<close>

datatype member = Entry jsstring jsstring | Inherited jsstring | Absent

definition getString :: "jsstring \<Rightarrow> member" where
  "getString key =
     (case map_of TEMPLATE_CONFIG key of
        Some nodeId \<Rightarrow> Entry key nodeId
      | None \<Rightarrow> if key \<in> set Object_prototype then Inherited key else Absent)"

text \<open>
  \<open>TEMPLATE_CONFIG[v]\<close>: the key of a value is its \<open>ToString\<close>, which throws for
  \<open>Obj None\<close>. The decimal form of a number names no property of the table or of the
  prototype.
\<close>

fun getMember :: "jsval \<Rightarrow> error + member" where
  "getMember (Str s) = Inr (getString s)"
| "getMember (Obj (Some s)) = Inr (getString s)"
| "getMember (Obj None) = Inl (TypeError ''toString'')"
| "getMember Undefined = Inr (getString (js ''undefined''))"
| "getMember Null = Inr (getString (js ''null''))"
| "getMember (Bool b) = Inr (getString (js (if b then ''true'' else ''false'')))"
| "getMember (Num n) = Inr Absent"

text \<open>Line 246: \<open>TEMPLATE_CONFIG[templateType] || TEMPLATE_CONFIG.default\<close>.\<close>

definition resolveTemplate :: "jsval \<Rightarrow> error + member" where
  "resolveTemplate templateType =
     (case getMember templateType of
        Inl e \<Rightarrow> Inl e
      | Inr m \<Rightarrow> Inr (if m \<noteq> Absent then m else getString (js ''default'')))"

text \<open>\<open>config.nodeId\<close>; reading a property of \<open>undefined\<close> is a TypeError.\<close>

fun nodeIdOf :: "member \<Rightarrow> error + jsval" where
  "nodeIdOf (Entry key nodeId) = Inr (Str nodeId)"
| "nodeIdOf (Inherited key) = Inr Undefined"
| "nodeIdOf Absent = Inl (TypeError ''nodeId'')"

section \<open>processCard\<close>

text \<open>
  The object which processCard returns. \<open>imageUrl\<close> and \<open>error\<close> are \<open>None\<close> when
  the object literal has no such property (lines 275-282 and 285-292).
\<close>

record card_result =
  success :: bool
  header :: jsval
  promo :: jsval
  template :: jsval
  imageUrl :: "jsval option"
  error :: "error option"
  timestamp :: nat

text \<open>\<open>s.replace(/\s+/g, '_')\<close>: every maximal run of white space becomes one \<open>_\<close>.\<close>

function underscored :: "jsstring \<Rightarrow> jsstring" where
  "underscored [] = []"
| "underscored (c # cs) =
     (if is_ws c then 0x5F # underscored (dropWhile is_ws cs) else c # underscored cs)"
  by pat_completeness auto
termination
  by (relation "measure length") (auto simp: length_dropWhile_le le_imp_less_Suc)

fun slugOf :: "jsval \<Rightarrow> error + jsstring" where
  "slugOf (Str headerText) = Inr (take 20 (underscored headerText))"
| "slugOf v = Inl (TypeError ''replace'')"

definition debugWrite :: "'w services \<Rightarrow> string \<Rightarrow> buffer \<Rightarrow> (unit, 'w) io" where
  "debugWrite sv path buf =
     (if development sv then writeFile sv path buf else ret ())"

text \<open>\<open>Date.now()\<close> and \<open>new Date()\<close>: reading the clock does not fail.\<close>

definition clock :: "'w services \<Rightarrow> (nat, 'w) io" where
  "clock sv w = (case dateNow sv w of (t, w') \<Rightarrow> (Inr t, w'))"

text \<open>
  The \<open>try\<close> block of processCard up to the upload (lines 244-272): the message of
  line 244 with the header in it, the template, the base image, the overlay, and the
  name of the file to upload.
\<close>

definition prepareCard ::
  "'w services \<Rightarrow> jsval \<Rightarrow> jsval \<Rightarrow> jsval \<Rightarrow> (buffer \<times> filename, 'w) io" where
  "prepareCard sv headerText promoText templateType =
     bindE (liftE (interpolate headerText)) (\<lambda>_.
     bindE (liftE (resolveTemplate templateType)) (\<lambda>config.
     bindE (liftE (nodeIdOf config)) (\<lambda>nodeId.
     bindE (exportFigmaComponent sv nodeId 2) (\<lambda>baseImageBuffer.
     bindE (debugWrite sv ''debug_base.png'' baseImageBuffer) (\<lambda>_.
     bindE (addTextOverlay sv baseImageBuffer headerText promoText templateType)
       (\<lambda>processedImage.
     bindE (debugWrite sv ''debug_processed.png'' processedImage) (\<lambda>_.
     bindE (clock sv) (\<lambda>t.
     bindE (liftE (slugOf headerText)) (\<lambda>s.
       ret (processedImage, \<lparr>stamp = t, slug = s\<rparr>))))))))))"

text \<open>The \<open>try\<close> block up to the value of \<open>imageUrl\<close> (line 273).\<close>

definition renderCard :: "'w services \<Rightarrow> jsval \<Rightarrow> jsval \<Rightarrow> jsval \<Rightarrow> (jsval, 'w) io" where
  "renderCard sv headerText promoText templateType =
     bindE (prepareCard sv headerText promoText templateType)
       (\<lambda>(processedImage, name). uploadToCloudinary sv processedImage name)"

text \<open>
  processCard (lines 242-294): the default of the third parameter, the \<open>try\<close> block
  with its \<open>catch\<close>, and the two object literals, each with the clock's value for
  \<open>timestamp\<close>. The \<open>catch\<close> begins with the message of line 284, which has the
  header in it again: an error of that conversion is thrown inside the handler, so it
  leaves processCard.
\<close>

definition processCard ::
  "'w services \<Rightarrow> jsval \<Rightarrow> jsval \<Rightarrow> jsval \<Rightarrow> (card_result, 'w) io" where
  "processCard sv headerText promoText templateArg =
     (let templateType = (if templateArg = Undefined then Str (js ''default'') else templateArg)
      in catchE
           (bindE (renderCard sv headerText promoText templateType) (\<lambda>url.
            bindE (clock sv) (\<lambda>t.
              ret \<lparr>success = True, header = headerText, promo = promoText,
                   template = templateType, imageUrl = Some url, error = None,
                   timestamp = t\<rparr>)))
           (\<lambda>e.
            bindE (liftE (interpolate headerText)) (\<lambda>_.
            bindE (clock sv) (\<lambda>t.
              ret \<lparr>success = False, header = headerText, promo = promoText,
                   template = templateType, imageUrl = None, error = Some e,
                   timestamp = t\<rparr>))))"

section \<open>processBatch\<close>

text \<open>
  A record of the batch: the fields which processBatch reads (lines 305-309), an absent
  one being \<open>Undefined\<close>. The records are objects: hybrid_server.js (lines 90-102) reads
  the same fields of every item before it calls processBatch, and lets an item pass
  when \<open>header\<close> or \<open>Header\<close>, and one of the three promo fields, is truthy.
\<close>

record card =
  c_header :: jsval
  c_Header :: jsval
  c_promo :: jsval
  c_PromoText :: jsval
  c_promo_text :: jsval
  c_template :: jsval

text \<open>The three arguments of the call of processCard (lines 306-308).\<close>

definition headerArg :: "card \<Rightarrow> jsval" where
  "headerArg c = js_or (c_header c) (c_Header c)"

definition promoArg :: "card \<Rightarrow> jsval" where
  "promoArg c = js_or (js_or (c_promo c) (c_PromoText c)) (c_promo_text c)"

definition templateArg :: "card \<Rightarrow> jsval" where
  "templateArg c = js_or (c_template c) (Str (js ''default''))"

text \<open>
  A run of processBatch is observed by what it does: it calls processCard, with three
  arguments, and it waits on the timer, for some milliseconds. The state of a run is
  the world together with the calls and waits made so far, oldest first. A call of
  processCard and a wait act on the world and are written down when they are made;
  nothing else touches the list.
\<close>

datatype event = ProcessCard jsval jsval jsval | Wait nat

type_synonym 'w run = "'w \<times> event list"

definition callCard ::
  "'w services \<Rightarrow> jsval \<Rightarrow> jsval \<Rightarrow> jsval \<Rightarrow> (card_result, 'w run) io" where
  "callCard sv h p t st =
     (case st of (w, made) \<Rightarrow>
        (case processCard sv h p t w of
           (r, w') \<Rightarrow> (r, (w', made @ [ProcessCard h p t]))))"

text \<open>\<open>await new Promise(resolve => setTimeout(resolve, ms))\<close> (line 315).\<close>

definition timeout :: "'w services \<Rightarrow> nat \<Rightarrow> 'w run \<Rightarrow> 'w run" where
  "timeout sv ms st = (case st of (w, made) \<Rightarrow> (sleep sv ms w, made @ [Wait ms]))"

text \<open>
  The loop of lines 301-317, from index \<open>i\<close>, with the results so far. The call of
  processCard is not inside a \<open>try\<close>: an error it throws leaves the loop and
  processBatch.
\<close>

function batchLoop ::
  "'w services \<Rightarrow> card list \<Rightarrow> nat \<Rightarrow> card_result list \<Rightarrow> (card_result list, 'w run) io" where
  "batchLoop sv cards i results st =
     (if i < length cards then
        (let c = cards ! i
         in case callCard sv (headerArg c) (promoArg c) (templateArg c) st of
              (Inl e, st1) \<Rightarrow> (Inl e, st1)
            | (Inr result, st1) \<Rightarrow>
                if int i < int (length cards) - 1
                then batchLoop sv cards (i + 1) (results @ [result]) (timeout sv 1000 st1)
                else batchLoop sv cards (i + 1) (results @ [result]) st1)
      else (Inr results, st))"
  by pat_completeness auto
termination
  by (relation "measure (\<lambda>(sv, cards, i, results, st). length cards - i)") auto

declare batchLoop.simps [simp del]

text \<open>
  processBatch (lines 297-328). The counts of lines 320-321 are only written to the
  console.
\<close>

definition processBatch :: "'w services \<Rightarrow> card list \<Rightarrow> (card_result list, 'w run) io" where
  "processBatch sv cards = batchLoop sv cards 0 []"

section \<open>Notions used to state the properties\<close>

text \<open>A separator put between consecutive elements, and nowhere else.\<close>

fun between :: "'a \<Rightarrow> 'a list \<Rightarrow> 'a list" where
  "between d [] = []"
| "between d [r] = [r]"
| "between d (r # r' # rs) = r # d # between d (r' # rs)"

text \<open>
  The words of a text: the pieces between white space, none of them empty; and the
  pieces between spaces, as wrapText splits.
\<close>

definition ws_words :: "jsstring \<Rightarrow> jsstring list" where
  "ws_words s = filter (\<lambda>w. w \<noteq> []) (splitp is_ws s)"

definition sp_words :: "jsstring \<Rightarrow> jsstring list" where
  "sp_words s = filter (\<lambda>w. w \<noteq> []) (split_sp s)"

text \<open>The inverse of \<open>split(' ')\<close>: \<open>join(' ')\<close>.\<close>

fun joinsp :: "jsstring list \<Rightarrow> jsstring" where
  "joinsp [] = []"
| "joinsp [w] = w"
| "joinsp (w # v # vs) = w @ SP # joinsp (v # vs)"

text \<open>A text whose only white space is the space.\<close>

definition only_sp :: "jsstring \<Rightarrow> bool" where
  "only_sp s \<longleftrightarrow> (\<forall>c \<in> set s. is_ws c \<longrightarrow> c = SP)"

text \<open>The state of \<open>currentLine\<close> between two words: empty, or ended by a space.\<close>

definition ends_sp :: "jsstring \<Rightarrow> bool" where
  "ends_sp s \<longleftrightarrow> s = [] \<or> last s = SP"

text \<open>A result which processCard returns for a record of the batch, in some world.\<close>

definition returnedFor :: "'w services \<Rightarrow> card_result \<Rightarrow> card \<Rightarrow> bool" where
  "returnedFor sv r c \<longleftrightarrow>
     (\<exists>w w'. processCard sv (headerArg c) (promoArg c) (templateArg c) w = (Inr r, w'))"

fun isWait :: "event \<Rightarrow> bool" where
  "isWait (Wait ms) = True"
| "isWait (ProcessCard h p t) = False"



definition callOf :: "card \<Rightarrow> event" where
  "callOf c = ProcessCard (headerArg c) (promoArg c) (templateArg c)"

text \<open>A record whose header can be written into a message.\<close>

definition printable :: "card \<Rightarrow> bool" where
  "printable c = stringable (headerArg c)"

text \<open>
  The records of a batch for which processCard is called: all of them up to the first
  that is not printable, that one included.
\<close>

fun reached :: "card list \<Rightarrow> card list" where
  "reached [] = []"
| "reached (c # cs) = (if printable c then c # reached cs else [c])"

text \<open>What a list of calls and waits does to the world, one after the other.\<close>

fun replay :: "'w services \<Rightarrow> event list \<Rightarrow> 'w \<Rightarrow> 'w" where
  "replay sv [] w = w"
| "replay sv (ProcessCard h p t # es) w = replay sv es (snd (processCard sv h p t w))"
| "replay sv (Wait ms # es) w = replay sv es (sleep sv ms w)"

text \<open>
  Services for concrete runs, the world being the clock: every request takes a
  millisecond, the base image is 1000 by 500 pixels, and the upload is refused for the
  slug \<open>bad\<close>. In \<open>offline\<close> the upload has no usable \<open>CLOUDINARY_URL\<close>; in
  \<open>nameless\<close> the upload's response has no \<open>secure_url\<close>.
\<close>

definition online :: "nat services" where
  "online =
     \<lparr>figmaImages = (\<lambda>nodeId scale w.
        (if nodeId = Undefined then Inl (LibraryError (js ''400'')) else Inr (Str (js ''u'')),
         w + 1)),
      download = (\<lambda>u w. (Inr [137, 80, 78, 71], w + 1)),
      sharpMetadata = (\<lambda>b w. (Inr (1000, 500), w)),
      sharpComposite = (\<lambda>b s w. (Inr b, w)),
      cloudinaryPost = (\<lambda>cloudName b f w.
        (if slug f = js ''bad'' then Inl (LibraryError (js ''503''))
         else Inr (Str (js ''https://res/'' @ slug f)), w + 1)),
      writeFile = (\<lambda>path b w. (Inr (), w)),
      dateNow = (\<lambda>w. (w, w)),
      sleep = (\<lambda>ms w. w + ms),
      CLOUDINARY_URL = Cloud (js ''demo''),
      development = False\<rparr>"


definition nameless :: "nat services" where
  "nameless = online\<lparr>cloudinaryPost := (\<lambda>cloudName b f w. (Inr Undefined, w + 1))\<rparr>"

definition request :: "string \<Rightarrow> string \<Rightarrow> card" where
  "request h p =
     \<lparr>c_header = Str (js h), c_Header = Undefined, c_promo = Str (js p),
      c_PromoText = Undefined, c_promo_text = Undefined, c_template = Undefined\<rparr>"

text \<open>
  A record as the body \<open>[{"header": {"toString": 1}, "promo": "x"}]\<close> gives it: the
  header is an object, which is truthy, and its conversion to a string throws.
\<close>

definition unprintable :: card where
  "unprintable =
     \<lparr>c_header = Obj None, c_Header = Undefined, c_promo = Str (js ''x''),
      c_PromoText = Undefined, c_promo_text = Undefined, c_template = Undefined\<rparr>"

section \<open>Properties\<close>

subsection \<open>Rounding\<close>

lemma pow2_less_iff: "(2::rat) powi m < 2 powi n \<longleftrightarrow> m < n"
proof
  assume "(2::rat) powi m < 2 powi n"
  show "m < n"
  proof (rule ccontr)
    assume "\<not> m < n"
    then have "(2::rat) powi n \<le> 2 powi m"
      by (intro power_int_increasing) simp_all
    with \<open>(2::rat) powi m < 2 powi n\<close> show False by simp
  qed
next
  assume "m < n"
  then show "(2::rat) powi m < 2 powi n"
    by (intro power_int_strict_increasing) simp_all
qed

lemma pow2_le_iff: "(2::rat) powi m \<le> 2 powi n \<longleftrightarrow> m \<le> n"
  using pow2_less_iff [of n m] by (simp add: not_less [symmetric])

lemma expo_bounds:
  assumes "0 < x"
  shows "2 powi (expo x) \<le> x \<and> x < 2 powi (expo x + 1)"
proof -
  obtain p q where pq: "quotient_of x = (p, q)" by (cases "quotient_of x")
  then have q: "0 < q" by (rule quotient_of_denom_pos)
  have x: "x = of_int p / of_int q" using pq by (rule quotient_of_div)
  with assms q have p: "0 < p" by (simp add: zero_less_divide_iff)
  define bp bq where "bp = bitlen p" and "bq = bitlen q"
  have bp: "2 ^ nat (bp - 1) \<le> p" "p < 2 ^ nat bp"
    using bitlen_bounds [OF p] by (simp_all add: bp_def)
  have bq: "2 ^ nat (bq - 1) \<le> q" "q < 2 ^ nat bq"
    using bitlen_bounds [OF q] by (simp_all add: bq_def)
  have bp1: "1 \<le> bp" using p by (simp add: bp_def bitlen_alt_def)
  have bq1: "1 \<le> bq" using q by (simp add: bq_def bitlen_alt_def)
  have P1: "(2::rat) powi (bp - 1) \<le> of_int p"
  proof -
    have "(of_int (2 ^ nat (bp - 1)) :: rat) \<le> of_int p" using bp(1) by (simp only: of_int_le_iff)
    then show ?thesis using bp1 by (simp add: power_int_def)
  qed
  have P2: "(of_int p :: rat) < 2 powi bp"
  proof -
    have "(of_int p :: rat) < of_int (2 ^ nat bp)" using bp(2) by (simp only: of_int_less_iff)
    then show ?thesis using bp1 by (simp add: power_int_def)
  qed
  have Q1: "(2::rat) powi (bq - 1) \<le> of_int q"
  proof -
    have "(of_int (2 ^ nat (bq - 1)) :: rat) \<le> of_int q" using bq(1) by (simp only: of_int_le_iff)
    then show ?thesis using bq1 by (simp add: power_int_def)
  qed
  have Q2: "(of_int q :: rat) < 2 powi bq"
  proof -
    have "(of_int q :: rat) < of_int (2 ^ nat bq)" using bq(2) by (simp only: of_int_less_iff)
    then show ?thesis using bq1 by (simp add: power_int_def)
  qed
  have qpos: "(0::rat) < of_int q" using q by simp
  have ppos: "(0::rat) < of_int p" using p by simp
  have up: "x < 2 powi (bp - bq + 1)"
  proof -
    have "x * of_int q = of_int p" using x qpos by simp
    also have "\<dots> < 2 powi bp" by (rule P2)
    also have "\<dots> = 2 powi (bp - bq + 1) * 2 powi (bq - 1)"
      by (simp flip: power_int_add)
    also have "\<dots> \<le> 2 powi (bp - bq + 1) * of_int q"
      using Q1 by (intro mult_left_mono) simp_all
    finally show ?thesis using qpos by (simp only: mult_less_cancel_right_pos)
  qed
  have lo: "2 powi (bp - bq - 1) < x"
  proof -
    have "(2::rat) powi (bp - bq - 1) * of_int q < 2 powi (bp - bq - 1) * 2 powi bq"
      using Q2 by (intro mult_strict_left_mono) simp_all
    also have "\<dots> = 2 powi (bp - 1)"
      by (simp flip: power_int_add)
    also have "\<dots> \<le> of_int p" by (rule P1)
    also have "\<dots> = x * of_int q" using x qpos by simp
    finally show ?thesis using qpos by (simp only: mult_less_cancel_right_pos)
  qed
  have e: "expo x = (if 2 powi (bp - bq) \<le> x then bp - bq else bp - bq - 1)"
    by (simp add: expo_def pq bp_def bq_def Let_def)
  show ?thesis
  proof (cases "2 powi (bp - bq) \<le> x")
    case True
    then show ?thesis using up e by simp
  next
    case False
    then show ?thesis using lo e by simp
  qed
qed

lemma expo_unique:
  assumes "0 < x" "2 powi e \<le> x" "x < 2 powi (e + 1)"
  shows "expo x = e"
proof -
  have b: "2 powi (expo x) \<le> x" "x < 2 powi (expo x + 1)"
    using expo_bounds [OF assms(1)] by simp_all
  have "(2::rat) powi (expo x) < 2 powi (e + 1)" using b(1) assms(3) by simp
  then have 1: "expo x < e + 1" by (simp only: pow2_less_iff)
  have "(2::rat) powi e < 2 powi (expo x + 1)" using b(2) assms(2) by simp
  then have 2: "e < expo x + 1" by (simp only: pow2_less_iff)
  from 1 2 show ?thesis by simp
qed

lemma round_half_even_error: "\<bar>of_int (round_half_even z) - z\<bar> \<le> 1 / 2"
proof -
  have "of_int \<lfloor>z\<rfloor> \<le> z" "z < of_int \<lfloor>z\<rfloor> + 1" by linarith+
  then show ?thesis
    by (auto simp add: round_half_even_def Let_def abs_le_iff)
qed

lemma round_half_even_near:
  assumes "\<bar>z - of_int k\<bar> < 1 / 2"
  shows "round_half_even z = k"
proof -
  have "\<bar>of_int (round_half_even z) - z\<bar> \<le> 1 / 2" by (rule round_half_even_error)
  with assms have "\<bar>(of_int (round_half_even z) :: rat) - of_int k\<bar> < 1" by linarith
  then have "\<bar>of_int (round_half_even z - k) :: rat\<bar> < 1" by simp
  then have "\<bar>round_half_even z - k\<bar> < 1"
    by (metis of_int_abs of_int_less_1_iff)
  then show ?thesis by simp
qed

lemma round64_normal:
  assumes "0 < x" "2 powi e \<le> x" "x < 2 powi (e + 1)" "- 1022 \<le> e" "e < 1023"
  shows "round64 x = Fin (of_int (round_half_even (x / 2 powi (e - 52))) * 2 powi (e - 52))"
proof -
  have e: "expo x = e" using assms(1-3) by (rule expo_unique)
  define u :: rat where "u = 2 powi (e - 52)"
  define k where "k = round_half_even (x / u)"
  have u: "0 < u" by (simp add: u_def)
  have "x / u < 2 powi (e + 1) / u"
    using assms(3) u by (simp add: divide_strict_right_mono)
  also have "\<dots> = 2 powi 53"
    by (simp add: u_def flip: power_int_diff)
  finally have z: "x / u < 9007199254740992" by simp
  have "\<bar>of_int k - x / u\<bar> \<le> 1 / 2"
    unfolding k_def by (rule round_half_even_error)
  with z have "(of_int k :: rat) < 9007199254740993" by linarith
  then have "k < 9007199254740993" by simp
  then have "k \<le> 9007199254740992" by simp
  then have "(of_int k :: rat) \<le> 9007199254740992" by simp
  then have "of_int k * u \<le> 9007199254740992 * u"
    using u by (simp add: mult_right_mono)
  also have "\<dots> = 2 powi (e + 1)"
  proof -
    have "e + 1 = 53 + (e - 52)" by simp
    then have "(2::rat) powi (e + 1) = 2 powi (53 + (e - 52))" by (rule arg_cong)
    also have "\<dots> = 2 powi 53 * 2 powi (e - 52)" by (rule power_int_add) simp
    finally show ?thesis by (simp add: u_def)
  qed
  also have "\<dots> < 2 powi 1024" using assms(5) by (simp only: pow2_less_iff)
  finally have "\<not> 2 powi 1024 \<le> of_int k * u" by simp
  then show ?thesis
    using assms(1,4) by (simp add: round64_def e Let_def u_def k_def)
qed

lemma lit_0_06: "lit (6 / 100) = Fin (1080863910568919 / 2 ^ 54)"
proof -
  have "round64 (6 / 100) = Fin (of_int (round_half_even ((6 / 100) / 2 powi (- 5 - 52))) * 2 powi (- 5 - 52))"
    by (rule round64_normal) simp_all
  also have "round_half_even ((6 / 100) / 2 powi (- 5 - 52)) = 8646911284551352"
    by (rule round_half_even_near) simp
  finally show ?thesis by (simp add: lit_def)
qed

lemma lit_0_04: "lit (4 / 100) = Fin (5764607523034235 / 2 ^ 57)"
proof -
  have "round64 (4 / 100) = Fin (of_int (round_half_even ((4 / 100) / 2 powi (- 5 - 52))) * 2 powi (- 5 - 52))"
    by (rule round64_normal) simp_all
  also have "round_half_even ((4 / 100) / 2 powi (- 5 - 52)) = 5764607523034235"
    by (rule round_half_even_near) simp
  finally show ?thesis by (simp add: lit_def)
qed

lemma lit_0_6: "lit (6 / 10) = Fin (5404319552844595 / 2 ^ 53)"
proof -
  have "round64 (6 / 10) = Fin (of_int (round_half_even ((6 / 10) / 2 powi (- 1 - 52))) * 2 powi (- 1 - 52))"
    by (rule round64_normal) simp_all
  also have "round_half_even ((6 / 10) / 2 powi (- 1 - 52)) = 5404319552844595"
    by (rule round_half_even_near) simp
  finally show ?thesis by (simp add: lit_def)
qed

lemma percent_round:
  fixes c :: rat
  assumes W: "0 < W" "W < 2 ^ 31"
    and c: "1 / 32 \<le> c" "c < 1 / 16" "\<bar>c - of_nat p / 100\<bar> \<le> c / 2 ^ 54"
  shows "math_round (round64 (of_nat W * c)) = Fin (of_nat ((p * W + 50) div 100))"
proof -
  define x where "x = of_nat W * c"
  define r :: rat where "r = of_nat (p * W) / 100"
  define q where "q = (p * W + 50) div 100"
  define m where "m = (p * W + 50) mod 100"
  have W1: "(1::rat) \<le> of_nat W" using W(1) by simp
  have "(of_nat W :: rat) < of_nat (2 ^ 31)" using W(2) by (simp only: of_nat_less_iff)
  then have W2: "(of_nat W :: rat) < 2147483648" by simp
  have cpos: "0 < c" using c(1) by simp
  have xlo: "1 / 32 \<le> x"
  proof -
    have "1 * c \<le> of_nat W * c" using W1 cpos by (intro mult_right_mono) simp_all
    with c(1) show ?thesis unfolding x_def by linarith
  qed
  have xhi: "x < 134217728"
  proof -
    have "of_nat W * c < 2147483648 * c" using W2 cpos by (intro mult_strict_right_mono)
    with c(2) show ?thesis unfolding x_def by linarith
  qed
  have xpos: "0 < x" using xlo by simp
  define e where "e = expo x"
  define a :: rat where "a = 2 powi e"
  have eb: "2 powi e \<le> x" "x < 2 powi (e + 1)"
    using expo_bounds [OF xpos] by (simp_all add: e_def)
  have apos: "0 < a" by (simp add: a_def)
  have a1: "a \<le> x" using eb(1) by (simp add: a_def)
  have a2: "x < 2 * a" using eb(2) by (simp add: a_def power_int_add)
  have e_lo: "- 6 < e"
  proof -
    have "(2::rat) powi (- 5) \<le> x" using xlo by simp
    with eb(2) have "(2::rat) powi (- 5) < 2 powi (e + 1)" by simp
    then have "- 5 < e + 1" by (simp only: pow2_less_iff)
    then show ?thesis by simp
  qed
  have e_hi: "e < 27"
  proof -
    have "x < 2 powi 27" using xhi by simp
    with eb(1) have "(2::rat) powi e < 2 powi 27" by simp
    then show ?thesis by (simp only: pow2_less_iff)
  qed
  define u :: rat where "u = 2 powi (e - 52)"
  have u: "u = a / 4503599627370496"
    by (simp add: u_def a_def power_int_diff)
  have upos: "0 < u" by (simp add: u_def)
  define k where "k = round_half_even (x / u)"
  define y where "y = of_int k * u"
  have r64: "round64 x = Fin y"
    unfolding y_def k_def u_def using xpos eb e_lo e_hi by (intro round64_normal) simp_all
  have err: "\<bar>y - x\<bar> \<le> u / 2"
  proof -
    have "\<bar>of_int k - x / u\<bar> \<le> 1 / 2"
      unfolding k_def by (rule round_half_even_error)
    then have "\<bar>of_int k - x / u\<bar> * u \<le> 1 / 2 * u"
      using upos by (intro mult_right_mono) simp_all
    moreover have "y - x = (of_int k - x / u) * u"
      using upos by (simp add: y_def left_diff_distrib)
    then have "\<bar>y - x\<bar> = \<bar>of_int k - x / u\<bar> * u"
      using upos by (simp add: abs_mult)
    ultimately show ?thesis by simp
  qed
  have xr: "\<bar>x - r\<bar> \<le> x / 18014398509481984"
  proof -
    have "x - r = of_nat W * (c - of_nat p / 100)"
      by (simp add: x_def r_def algebra_simps)
    then have "\<bar>x - r\<bar> = of_nat W * \<bar>c - of_nat p / 100\<bar>"
      by (simp add: abs_mult)
    also have "\<dots> \<le> of_nat W * (c / 2 ^ 54)"
      using c(3) by (intro mult_left_mono) simp_all
    finally show ?thesis by (simp add: x_def)
  qed
  have "p * W + 50 = 100 * q + m" by (simp add: q_def m_def)
  then have "(of_nat (p * W + 50) :: rat) = of_nat (100 * q + m)" by (rule arg_cong)
  then have qm: "r + 1 / 2 = of_nat q + of_nat m / 100"
    by (simp add: r_def)
  have "m \<le> 99" by (simp add: m_def)
  then have "(of_nat m :: rat) \<le> of_nat 99" by (simp only: of_nat_le_iff)
  then have m99: "(of_nat m :: rat) \<le> 99" by simp
  have e1: "y - x \<le> u / 2" "x - y \<le> u / 2" using err by linarith+
  have e2: "x - r \<le> x / 18014398509481984" "r - x \<le> x / 18014398509481984"
    using xr by linarith+
  have uu: "u / 2 = a / 9007199254740992" by (simp add: u)
  have up: "y + 1 / 2 < of_nat q + 1"
    using e1 e2 uu qm m99 xhi a1 by linarith
  have lo: "of_nat q \<le> y + 1 / 2"
  proof (cases "m = 0")
    case False
    then have "(1::rat) \<le> of_nat m" by simp
    then show ?thesis
      using e1 e2 uu qm xhi a1 by linarith
  next
    case True
    then have r: "r = of_nat q - 1 / 2" using qm by simp
    define K where "K = (2 * int q - 1) * 2 ^ nat (51 - e)"
    have "(2::rat) powi (51 - e) = 2 ^ nat (51 - e)"
      using e_hi by (simp add: power_int_def)
    then have "(of_int K :: rat) = (2 * of_nat q - 1) * 2 powi (51 - e)"
      by (simp add: K_def)
    also have "\<dots> = (2 * of_nat q - 1) * (2251799813685248 / a)"
      by (simp add: a_def power_int_diff)
    also have "\<dots> = r / u"
      using apos by (simp add: r u field_simps)
    finally have K: "of_int K = r / u" .
    have "\<bar>x / u - of_int K\<bar> = \<bar>x - r\<bar> / u"
      using upos by (simp add: K diff_divide_distrib [symmetric])
    also have "\<dots> \<le> (x / 18014398509481984) / u"
      by (rule divide_right_mono [OF xr]) (use upos in simp)
    also have "\<dots> < 1 / 2"
      using a2 apos by (simp add: u field_simps)
    finally have "k = K" unfolding k_def by (rule round_half_even_near)
    then have "y = r" using upos by (simp add: y_def K)
    then show ?thesis by (simp add: r)
  qed
  have "\<lfloor>y + 1 / 2\<rfloor> = int q"
    by (rule floor_unique) (use lo up in simp_all)
  then show ?thesis
    by (simp add: r64 x_def [symmetric] q_def)
qed

subsection \<open>Font sizes\<close>

lemma floor_percent:
  "\<lfloor>of_nat p / 100 * of_nat W + 1 / 2 :: rat\<rfloor> = int ((p * W + 50) div 100)"
proof -
  have "of_nat p / 100 * of_nat W + 1 / 2 = (of_int (int (p * W + 50)) :: rat) / of_int 100"
    by simp
  also have "\<lfloor>\<dots>\<rfloor> = int (p * W + 50) div 100"
    by (rule floor_divide_of_int_eq)
  finally show ?thesis by (simp add: zdiv_int)
qed

lemma percent_round_all:
  fixes c :: rat
  assumes "W < 2 ^ 31" "1 / 32 \<le> c" "c < 1 / 16" "\<bar>c - of_nat p / 100\<bar> \<le> c / 2 ^ 54"
  shows "math_round (jmul (px W) (Fin c))
         = Fin (of_int \<lfloor>of_nat p / 100 * of_nat W + 1 / 2 :: rat\<rfloor>)"
proof (cases "W = 0")
  case True
  then show ?thesis by (simp add: px_def round64_def)
next
  case False
  then have "0 < W" by simp
  from percent_round [OF this assms] show ?thesis
    unfolding floor_percent by (simp add: px_def)
qed

text \<open>
  C5. For a canvas width below \<open>2\<^sup>3\<^sup>1\<close> pixels the header font size, computed in
  binary64 as \<open>Math.round(width * 0.06)\<close>, is the integer nearest to 6 percent of the
  width in exact arithmetic, a half rounded up; and the promo font size is so for 4
  percent. The rounding errors of the literal and of the product never move the result.
\<close>

theorem fontSizes:
  assumes "width < 2 ^ 31"
  shows "headerFontSizeOf width = Fin (of_int \<lfloor>6 / 100 * of_nat width + 1 / 2 :: rat\<rfloor>)
         \<and> promoFontSizeOf width = Fin (of_int \<lfloor>4 / 100 * of_nat width + 1 / 2 :: rat\<rfloor>)"
proof -
  have h: "math_round (jmul (px width) (Fin (1080863910568919 / 2 ^ 54)))
        = Fin (of_int \<lfloor>6 / 100 * of_nat width + 1 / 2 :: rat\<rfloor>)"
    using percent_round_all [of width "1080863910568919 / 2 ^ 54" 6] assms by simp
  have p: "math_round (jmul (px width) (Fin (5764607523034235 / 2 ^ 57)))
        = Fin (of_int \<lfloor>4 / 100 * of_nat width + 1 / 2 :: rat\<rfloor>)"
    using percent_round_all [of width "5764607523034235 / 2 ^ 57" 4] assms by simp
  show ?thesis
    unfolding headerFontSizeOf_def promoFontSizeOf_def lit_0_06 lit_0_04
    by (intro conjI h p)
qed

theorem fontSizes_witness:
  "(1000::nat) < 2 ^ 31 \<and> headerFontSizeOf 1000 = Fin 60 \<and> promoFontSizeOf 1000 = Fin 40"
  using fontSizes [of 1000] floor_percent [of 6 1000] floor_percent [of 4 1000]
  by simp

subsection \<open>Strings\<close>

lemma is_ws_SP: "is_ws SP"
  by (simp add: is_ws_def SP_def)

lemma splitp_not_Nil: "splitp P s \<noteq> []"
  by (induction s) (auto split: list.splits)

lemma splitp_append_sep:
  "P c \<Longrightarrow> splitp P (a @ c # b) = splitp P a @ splitp P b"
proof (induction a)
  case Nil
  then show ?case by simp
next
  case (Cons x a)
  then show ?case
    using splitp_not_Nil [of P a] by (auto split: list.splits)
qed

lemma splitp_none: "\<forall>c \<in> set s. \<not> P c \<Longrightarrow> splitp P s = [s]"
  by (induction s) auto

lemma splitp_cong: "\<forall>c \<in> set s. P c = Q c \<Longrightarrow> splitp P s = splitp Q s"
  by (induction s) auto

lemma joinsp_split: "joinsp (splitp (\<lambda>c. c = SP) s) = s"
proof (induction s)
  case Nil
  then show ?case by simp
next
  case (Cons x s)
  show ?case
  proof (cases "splitp (\<lambda>c. c = SP) s")
    case Nil
    then show ?thesis using splitp_not_Nil by blast
  next
    case (Cons w ws)
    with Cons.IH show ?thesis
      by (cases ws) auto
  qed
qed

lemma ws_words_Nil [simp]: "ws_words [] = []"
  by (simp add: ws_words_def)

lemma ws_words_append_sep:
  "is_ws c \<Longrightarrow> ws_words (a @ c # b) = ws_words a @ ws_words b"
  by (simp add: ws_words_def splitp_append_sep)

lemma ws_words_snoc_ws: "is_ws c \<Longrightarrow> ws_words (a @ [c]) = ws_words a"
  using ws_words_append_sep [of c a "[]"] by simp

lemma ws_words_Cons_ws: "is_ws c \<Longrightarrow> ws_words (c # b) = ws_words b"
  using ws_words_append_sep [of c "[]" b] by simp

lemma ws_words_dropWhile: "ws_words (dropWhile is_ws s) = ws_words s"
  by (induction s) (simp_all add: ws_words_Cons_ws)

lemma ws_words_drop_end: "ws_words (rev (dropWhile is_ws (rev s))) = ws_words s"
  by (induction s rule: rev_induct) (simp_all add: ws_words_snoc_ws)

lemma ws_words_trim: "ws_words (trim s) = ws_words s"
  by (simp add: trim_def ws_words_drop_end ws_words_dropWhile)

lemma ws_words_joinsp: "ws_words (joinsp ws) = concat (map ws_words ws)"
  by (induction ws rule: joinsp.induct) (simp_all add: ws_words_append_sep is_ws_SP)

lemma ws_words_split: "concat (map ws_words (split_sp text)) = ws_words text"
  using ws_words_joinsp [of "split_sp text"] by (simp add: split_sp_def joinsp_split)

subsection \<open>The loop of wrapText\<close>

lemma ws_words_after_sp:
  "ends_sp cur \<Longrightarrow> ws_words (cur @ word @ [SP]) = ws_words cur @ ws_words word"
proof (cases "cur = []")
  case True
  then show ?thesis by (simp add: ws_words_snoc_ws is_ws_SP)
next
  case False
  assume "ends_sp cur"
  with False obtain c' where c': "cur = c' @ [SP]"
    by (metis ends_sp_def append_butlast_last_id)
  have "ws_words (c' @ SP # (word @ [SP])) = ws_words c' @ ws_words (word @ [SP])"
    by (rule ws_words_append_sep) (rule is_ws_SP)
  then show ?thesis
    by (simp add: c' ws_words_snoc_ws is_ws_SP)
qed

lemma wrapStep_ends_sp: "ends_sp (snd (wrapStep mc st word))"
  by (cases st) (simp add: wrapStep_def ends_sp_def)

lemma wrapStep_words:
  assumes "ends_sp (snd st)"
  shows "concat (map ws_words (fst (wrapStep mc st word))) @ ws_words (snd (wrapStep mc st word))
         = concat (map ws_words (fst st)) @ ws_words (snd st) @ ws_words word"
  using assms
  by (cases st)
     (simp add: wrapStep_def ws_words_trim ws_words_snoc_ws is_ws_SP ws_words_after_sp)

lemma wrapLoop_words:
  "ends_sp (snd st) \<Longrightarrow>
   concat (map ws_words (fst (foldl (wrapStep mc) st words)))
     @ ws_words (snd (foldl (wrapStep mc) st words))
   = concat (map ws_words (fst st)) @ ws_words (snd st) @ concat (map ws_words words)"
proof (induction words arbitrary: st)
  case Nil
  then show ?case by simp
next
  case (Cons word words)
  have "ends_sp (snd (wrapStep mc st word))" by (rule wrapStep_ends_sp)
  from Cons.IH [OF this] wrapStep_words [OF Cons.prems, of mc word]
  show ?case by simp
qed

lemma wrapWords_words:
  "concat (map ws_words (wrapWords mc words)) = concat (map ws_words words)"
proof -
  obtain ls cur where f: "foldl (wrapStep mc) ([], []) words = (ls, cur)"
    by (cases "foldl (wrapStep mc) ([], []) words")
  have "concat (map ws_words ls) @ ws_words cur = concat (map ws_words words)"
    using wrapLoop_words [of "([], [])" mc words] by (simp add: f ends_sp_def)
  then show ?thesis
    by (auto simp add: wrapWords_def f ws_words_trim)
qed

lemma wrapText_ws_words:
  "concat (map ws_words (wrapText text maxWidth fontSize)) = ws_words text"
  by (simp add: wrapText_def Let_def wrapWords_words ws_words_split)

subsection \<open>Words separated by spaces only\<close>

lemma set_trim: "set (trim s) \<subseteq> set s"
proof -
  have "set (dropWhile is_ws (rev (dropWhile is_ws s))) \<subseteq> set (rev (dropWhile is_ws s))"
    by (auto dest: set_dropWhileD)
  also have "\<dots> \<subseteq> set s"
    by (auto dest: set_dropWhileD)
  finally show ?thesis by (simp add: trim_def)
qed

lemma set_splitp: "w \<in> set (splitp P s) \<Longrightarrow> set w \<subseteq> set s"
proof (induction s arbitrary: w)
  case Nil
  then show ?case by simp
next
  case (Cons c s)
  show ?case
  proof (cases "P c")
    case True
    with Cons show ?thesis by auto
  next
    case False
    obtain v vs where v: "splitp P s = v # vs"
      using splitp_not_Nil [of P s] by (cases "splitp P s") auto
    with Cons.prems False have "w = c # v \<or> w \<in> set vs" by simp
    then show ?thesis
      using Cons.IH [of v] Cons.IH [of w] v by auto
  qed
qed

lemma sp_words_ws_words: "only_sp s \<Longrightarrow> sp_words s = ws_words s"
proof -
  assume "only_sp s"
  then have "\<forall>c \<in> set s. (c = SP) = is_ws c"
    using is_ws_SP by (auto simp add: only_sp_def)
  then have "splitp (\<lambda>c. c = SP) s = splitp is_ws s"
    by (rule splitp_cong)
  then show ?thesis by (simp add: sp_words_def ws_words_def split_sp_def)
qed

lemma wrapStep_only_sp:
  assumes "\<forall>l \<in> set (fst st). only_sp l" "only_sp (snd st)" "only_sp word"
  shows "(\<forall>l \<in> set (fst (wrapStep mc st word)). only_sp l) \<and> only_sp (snd (wrapStep mc st word))"
proof -
  have t: "only_sp (trim (snd st))"
    using assms(2) set_trim [of "snd st"] by (auto simp add: only_sp_def)
  show ?thesis
    using assms t by (cases st) (auto simp add: wrapStep_def only_sp_def)
qed

lemma wrapLoop_only_sp:
  "\<forall>l \<in> set (fst st). only_sp l \<Longrightarrow> only_sp (snd st) \<Longrightarrow> \<forall>w \<in> set words. only_sp w \<Longrightarrow>
   (\<forall>l \<in> set (fst (foldl (wrapStep mc) st words)). only_sp l)
   \<and> only_sp (snd (foldl (wrapStep mc) st words))"
proof (induction words arbitrary: st)
  case Nil
  then show ?case by simp
next
  case (Cons word words)
  have "(\<forall>l \<in> set (fst (wrapStep mc st word)). only_sp l) \<and> only_sp (snd (wrapStep mc st word))"
    using Cons.prems by (intro wrapStep_only_sp) simp_all
  then show ?case
    using Cons.IH [of "wrapStep mc st word"] Cons.prems(3) by simp
qed

lemma wrapWords_only_sp:
  assumes "\<forall>w \<in> set words. only_sp w" "l \<in> set (wrapWords mc words)"
  shows "only_sp l"
proof -
  obtain ls cur where f: "foldl (wrapStep mc) ([], []) words = (ls, cur)"
    by (cases "foldl (wrapStep mc) ([], []) words")
  have inv: "(\<forall>l \<in> set ls. only_sp l) \<and> only_sp cur"
    using wrapLoop_only_sp [of "([], [])" words mc] assms(1) by (simp add: f only_sp_def)
  then have "only_sp (trim cur)"
    using set_trim [of cur] by (auto simp add: only_sp_def)
  with inv assms(2) show ?thesis
    by (auto simp add: wrapWords_def f split: if_splits)
qed

lemma wrapText_sp_words:
  assumes "only_sp text"
  shows "concat (map sp_words (wrapText text maxWidth fontSize)) = sp_words text"
proof -
  have "\<forall>w \<in> set (split_sp text). only_sp w"
    using assms set_splitp [of _ "\<lambda>c. c = SP" "text"]
    by (auto simp add: only_sp_def split_sp_def)
  then have "\<forall>l \<in> set (wrapText text maxWidth fontSize). only_sp l"
    by (auto simp add: wrapText_def Let_def intro: wrapWords_only_sp)
  then have "map sp_words (wrapText text maxWidth fontSize)
             = map ws_words (wrapText text maxWidth fontSize)"
    by (intro map_cong refl sp_words_ws_words) simp
  then have "concat (map sp_words (wrapText text maxWidth fontSize)) = ws_words text"
    by (simp only: wrapText_ws_words)
  then show ?thesis
    using assms by (simp add: sp_words_ws_words)
qed

text \<open>
  C4. The words of the lines of wrapText, line after line, are the words of the text,
  in their order: for every text when words are the pieces between white space, and
  also, for a text whose only white space is the space, when words are the pieces which
  \<open>split(' ')\<close> gives, the empty ones left out.
\<close>

theorem wrapText_keeps_words:
  "concat (map ws_words (wrapText text maxWidth fontSize)) = ws_words text
   \<and> (only_sp text \<longrightarrow>
        concat (map sp_words (wrapText text maxWidth fontSize)) = sp_words text)"
  by (simp add: wrapText_ws_words wrapText_sp_words)

theorem wrapText_keeps_words_witness:
  "only_sp (js ''50% off  all'')
   \<and> concat (map sp_words (wrapText (js ''50% off  all'') (Fin 800) (Fin 40)))
       = [js ''50%'', js ''off'', js ''all'']"
  using wrapText_keeps_words [of "js ''50% off  all''" "Fin 800" "Fin 40"]
  by (simp add: only_sp_def sp_words_def split_sp_def js_def is_ws_def SP_def)

subsection \<open>A word longer than the line\<close>

lemma length_gt_mono: "length_gt n mc \<Longrightarrow> n \<le> m \<Longrightarrow> length_gt m mc"
  by (cases mc) auto

lemma trim_no_ws: "\<forall>c \<in> set w. \<not> is_ws c \<Longrightarrow> trim w = w"
proof -
  assume a: "\<forall>c \<in> set w. \<not> is_ws c"
  then have "dropWhile is_ws w = w"
    by (intro dropWhile_id) simp
  moreover from a have "dropWhile is_ws (rev w) = rev w"
    by (intro dropWhile_id) simp
  ultimately show ?thesis by (simp add: trim_def)
qed

lemma trim_snoc_ws: "is_ws c \<Longrightarrow> trim (s @ [c]) = trim s"
proof -
  assume c: "is_ws c"
  show ?thesis
  proof (cases "\<forall>x \<in> set s. is_ws x")
    case True
    then have d1: "dropWhile is_ws (s @ [c]) = []" and d2: "dropWhile is_ws s = []"
      using c by simp_all
    show ?thesis unfolding trim_def d1 d2 by (rule refl)
  next
    case False
    then have "dropWhile is_ws (s @ [c]) = dropWhile is_ws s @ [c]"
      by (auto simp add: dropWhile_append1)
    then show ?thesis using c by (simp add: trim_def)
  qed
qed

lemma wrapStep_prefix:
  "wrapStep mc (ls0 @ ls, cur) word =
     (ls0 @ fst (wrapStep mc (ls, cur) word), snd (wrapStep mc (ls, cur) word))"
  by (simp add: wrapStep_def)

lemma wrapLoop_prefix:
  "foldl (wrapStep mc) (ls0 @ ls, cur) words =
     (ls0 @ fst (foldl (wrapStep mc) (ls, cur) words),
      snd (foldl (wrapStep mc) (ls, cur) words))"
proof (induction words arbitrary: ls cur)
  case Nil
  then show ?case by simp
next
  case (Cons word words)
  obtain ls' cur' where s: "wrapStep mc (ls, cur) word = (ls', cur')"
    by (cases "wrapStep mc (ls, cur) word")
  show ?case
    using Cons.IH [of ls' cur'] by (simp add: wrapStep_prefix [of mc ls0 ls cur word] s)
qed

lemma wrapStep_current: "snd (wrapStep mc st word) \<noteq> []"
  by (cases st) (simp add: wrapStep_def)

lemma wrapLoop_current: "words \<noteq> [] \<Longrightarrow> snd (foldl (wrapStep mc) st words) \<noteq> []"
  by (cases words rule: rev_cases) (simp_all add: wrapStep_current)

lemma wrapStep_first: "wrapStep mc ([], []) v = ([], v @ [SP])"
  by (simp add: wrapStep_def)

lemma wrapWords_long_word:
  assumes long: "length_gt (length w) mc"
  shows "wrapWords mc (pre @ w # post) =
           (if pre = [] then [] else wrapWords mc pre) @ [trim w]
           @ (if post = [] then [] else wrapWords mc post)"
proof -
  obtain l1 c1 where f: "foldl (wrapStep mc) ([], []) pre = (l1, c1)"
    by (cases "foldl (wrapStep mc) ([], []) pre")
  define L where "L = (if pre = [] then [] else wrapWords mc pre)"
  have c1: "c1 \<noteq> [] \<longleftrightarrow> pre \<noteq> []"
    using wrapLoop_current [of pre mc "([], [])"] f by (cases pre) auto
  have L: "L = (if c1 \<noteq> [] then l1 @ [trim c1] else l1)"
    using f c1 by (auto simp add: L_def wrapWords_def)
  have "length_gt (length (c1 @ w)) mc"
    using long by (rule length_gt_mono) simp
  then have s1: "foldl (wrapStep mc) ([], []) (pre @ [w]) = (L, w @ [SP])"
    by (simp add: f wrapStep_def L)
  have tw: "trim (w @ [SP]) = trim w"
    by (rule trim_snoc_ws) (rule is_ws_SP)
  show ?thesis
  proof (cases post)
    case Nil
    have "wrapWords mc (pre @ [w]) = L @ [trim w]"
      unfolding wrapWords_def s1 by (simp add: tw)
    then show ?thesis by (simp add: Nil L_def)
  next
    case (Cons v vs)
    have "length_gt (length ((w @ [SP]) @ v)) mc"
      using long by (rule length_gt_mono) simp
    then have s2: "foldl (wrapStep mc) ([], []) (pre @ [w, v]) = (L @ [trim w], v @ [SP])"
      using s1 by (simp add: wrapStep_def tw)
    obtain l3 c3 where x: "foldl (wrapStep mc) ([], []) (v # vs) = (l3, c3)"
      by (cases "foldl (wrapStep mc) ([], []) (v # vs)")
    then have x': "foldl (wrapStep mc) ([], v @ [SP]) vs = (l3, c3)"
      by (simp add: wrapStep_first)
    have "foldl (wrapStep mc) ([], []) (pre @ w # v # vs)
          = foldl (wrapStep mc) (foldl (wrapStep mc) ([], []) (pre @ [w, v])) vs"
      by simp
    also have "\<dots> = foldl (wrapStep mc) ((L @ [trim w]) @ [], v @ [SP]) vs"
      unfolding s2 by simp
    also have "\<dots> = ((L @ [trim w]) @ l3, c3)"
      unfolding wrapLoop_prefix x' by simp
    finally have fin: "foldl (wrapStep mc) ([], []) (pre @ w # v # vs)
                       = ((L @ [trim w]) @ l3, c3)" .
    have "wrapWords mc (pre @ w # v # vs) = (L @ [trim w]) @ wrapWords mc (v # vs)"
      unfolding wrapWords_def fin x by simp
    then show ?thesis by (simp add: Cons L_def)
  qed
qed

lemma maxCharsOf_800_40: "maxCharsOf (Fin 800) (Fin 40) = Fin 33"
proof -
  have "round64 (40 * (5404319552844595 / 2 ^ 53))
        = Fin (of_int (round_half_even (40 * (5404319552844595 / 2 ^ 53) / 2 powi (4 - 52)))
               * 2 powi (4 - 52))"
    by (rule round64_normal) simp_all
  also have "round_half_even (40 * (5404319552844595 / 2 ^ 53) / 2 powi (4 - 52))
             = 6755399441055744"
    by (rule round_half_even_near) simp
  finally have "round64 (40 * (5404319552844595 / 2 ^ 53)) = Fin 24"
    by simp
  then have charWidth: "jmul (Fin 40) (lit (6 / 10)) = Fin 24"
    unfolding lit_0_6 jmul.simps .
  have "round64 (800 / 24)
        = Fin (of_int (round_half_even (800 / 24 / 2 powi (5 - 52))) * 2 powi (5 - 52))"
    by (rule round64_normal) simp_all
  also have "round_half_even (800 / 24 / 2 powi (5 - 52)) = 4691249611844267"
    by (rule round_half_even_near) simp
  finally have quot: "jdiv (Fin 800) (Fin 24) = Fin (4691249611844267 / 2 ^ 47)"
    by simp
  have "\<lfloor>4691249611844267 / 2 ^ 47 :: rat\<rfloor> = 33"
    by (rule floor_unique) simp_all
  then show ?thesis
    unfolding maxCharsOf_def Let_def charWidth quot by simp
qed

text \<open>
  C6. A text which is one word (no space in it, no other white space at its ends),
  longer than \<open>maxChars\<close>, is returned as one line, itself. More generally such a
  word, wherever it stands in the text, is a line of its own, unchanged: the lines
  before it are the wrapping of the words before it, and the lines after it the
  wrapping of the words after it. A word free of white space is such a word.
\<close>

theorem wrapText_long_word:
  "(SP \<notin> set text \<and> trim text = text
      \<and> length_gt (length text) (maxCharsOf maxWidth fontSize)
      \<longrightarrow> wrapText text maxWidth fontSize = [text])
   \<and> (split_sp text = pre @ w # post \<and> trim w = w
       \<and> length_gt (length w) (maxCharsOf maxWidth fontSize)
      \<longrightarrow> wrapText text maxWidth fontSize =
            (if pre = [] then [] else wrapWords (maxCharsOf maxWidth fontSize) pre) @ [w]
            @ (if post = [] then [] else wrapWords (maxCharsOf maxWidth fontSize) post))
   \<and> ((\<forall>c \<in> set w. \<not> is_ws c) \<longrightarrow> trim w = w)"
proof -
  have more: "wrapText s maxWidth fontSize =
            (if pre = [] then [] else wrapWords (maxCharsOf maxWidth fontSize) pre) @ [w]
            @ (if post = [] then [] else wrapWords (maxCharsOf maxWidth fontSize) post)"
    if "split_sp s = pre @ w # post" "trim w = w"
       "length_gt (length w) (maxCharsOf maxWidth fontSize)"
    for s pre w post
    using wrapWords_long_word [OF that(3), of pre post] that(1,2)
    by (simp add: wrapText_def)
  have one: "wrapText text maxWidth fontSize = [text]"
    if "SP \<notin> set text" "trim text = text"
       "length_gt (length text) (maxCharsOf maxWidth fontSize)"
  proof -
    have "\<forall>c \<in> set text. \<not> c = SP" using that(1) by auto
    then have "split_sp text = [] @ text # []"
      by (simp add: split_sp_def splitp_none)
    from more [OF this that(2,3)] show ?thesis by simp
  qed
  from one more [of "text" pre w post] trim_no_ws [of w] show ?thesis by blast
qed

theorem wrapText_long_word_witness:
  "SP \<notin> set (js ''Supercalifragilisticexpialidocious'')
   \<and> trim (js ''Supercalifragilisticexpialidocious'') = js ''Supercalifragilisticexpialidocious''
   \<and> length_gt (length (js ''Supercalifragilisticexpialidocious'')) (maxCharsOf (Fin 800) (Fin 40))
   \<and> wrapText (js ''Supercalifragilisticexpialidocious'') (Fin 800) (Fin 40)
       = [js ''Supercalifragilisticexpialidocious'']
   \<and> split_sp (js ''a Supercalifragilisticexpialidocious b'')
       = [js ''a''] @ js ''Supercalifragilisticexpialidocious'' # [js ''b'']
   \<and> wrapText (js ''a Supercalifragilisticexpialidocious b'') (Fin 800) (Fin 40)
       = [js ''a'', js ''Supercalifragilisticexpialidocious'', js ''b'']"
proof -
  have w: "\<forall>c \<in> set (js ''Supercalifragilisticexpialidocious''). \<not> is_ws c"
    by (simp add: js_def is_ws_def)
  then have t: "trim (js ''Supercalifragilisticexpialidocious'')
                = js ''Supercalifragilisticexpialidocious''"
    by (rule trim_no_ws)
  have n: "SP \<notin> set (js ''Supercalifragilisticexpialidocious'')"
    using w is_ws_SP by blast
  have l: "length_gt (length (js ''Supercalifragilisticexpialidocious'')) (maxCharsOf (Fin 800) (Fin 40))"
    by (simp add: maxCharsOf_800_40 js_def)
  have s: "split_sp (js ''a Supercalifragilisticexpialidocious b'')
       = [js ''a''] @ js ''Supercalifragilisticexpialidocious'' # [js ''b'']"
    by (simp add: split_sp_def js_def SP_def)
  have a: "wrapWords (Fin 33) [js ''a''] = [js ''a'']"
    by (simp add: wrapWords_def wrapStep_def trim_def js_def is_ws_def SP_def)
  have b: "wrapWords (Fin 33) [js ''b''] = [js ''b'']"
    by (simp add: wrapWords_def wrapStep_def trim_def js_def is_ws_def SP_def)
  have 1: "wrapText (js ''Supercalifragilisticexpialidocious'') (Fin 800) (Fin 40)
       = [js ''Supercalifragilisticexpialidocious'']"
    using wrapText_long_word [of "js ''Supercalifragilisticexpialidocious''" "Fin 800" "Fin 40"
        "[]" "js ''Supercalifragilisticexpialidocious''" "[]"] n t l
    by blast
  have 2: "wrapText (js ''a Supercalifragilisticexpialidocious b'') (Fin 800) (Fin 40)
       = [js ''a'', js ''Supercalifragilisticexpialidocious'', js ''b'']"
    using wrapText_long_word [of "js ''a Supercalifragilisticexpialidocious b''" "Fin 800" "Fin 40"
        "[js ''a'']" "js ''Supercalifragilisticexpialidocious''" "[js ''b'']"] s t l a b
    by (simp add: maxCharsOf_800_40)
  from n t l 1 s 2 show ?thesis by blast
qed

subsection \<open>wrapText on the empty text\<close>

text \<open>
  C3 fails on the code: for the empty text \<open>split\<close> gives one empty word, the loop
  leaves \<open>currentLine\<close> as one space, which is truthy, and wrapText returns one line,
  the empty string, whatever the width and the font size.
\<close>

theorem wrapText_empty:
  "wrapText [] maxWidth fontSize = [[]] \<and> promoLinesOf (Str []) width = Inr [[]]"
  by (simp add: wrapText_def split_sp_def wrapWords_def wrapStep_def trim_def is_ws_def SP_def)


subsection \<open>processCard\<close>

text \<open>
  A header that cannot be converted to a string makes the message of line 244 throw,
  and then the message of line 284, inside the \<open>catch\<close>: processCard throws, before
  any service is called.
\<close>

lemma processCard_throws:
  "\<not> stringable h \<Longrightarrow> processCard sv h p t w = (Inl (TypeError ''toString''), w)"
  by (simp add: processCard_def Let_def catchE_def renderCard_def prepareCard_def bindE_def
        liftE_def interpolate_def)

lemma renderCard_split:
  "renderCard sv h p t w =
     (case prepareCard sv h p t w of
        (Inl e, w1) \<Rightarrow> (Inl e, w1)
      | (Inr (img, name), w1) \<Rightarrow> uploadToCloudinary sv img name w1)"
  by (simp add: renderCard_def bindE_def split: prod.splits sum.splits)

text \<open>For every other header the result is one of the two object literals.\<close>

lemma processCard_cases:
  assumes "stringable h"
  shows
  "(\<exists>url t' w'.
      processCard sv h p t w =
        (Inr \<lparr>success = True, header = h, promo = p,
              template = (if t = Undefined then Str (js ''default'') else t),
              imageUrl = Some url, error = None, timestamp = t'\<rparr>, w')
      \<and> fst (renderCard sv h p (if t = Undefined then Str (js ''default'') else t) w) = Inr url)
   \<or> (\<exists>e t' w'.
      processCard sv h p t w =
        (Inr \<lparr>success = False, header = h, promo = p,
              template = (if t = Undefined then Str (js ''default'') else t),
              imageUrl = None, error = Some e, timestamp = t'\<rparr>, w')
      \<and> fst (renderCard sv h p (if t = Undefined then Str (js ''default'') else t) w) = Inl e)"
proof -
  define T where "T = (if t = Undefined then Str (js ''default'') else t)"
  obtain r w1 where r: "renderCard sv h p T w = (r, w1)"
    by (cases "renderCard sv h p T w")
  obtain t' w2 where c: "dateNow sv w1 = (t', w2)"
    by (cases "dateNow sv w1")
  show ?thesis
    unfolding T_def [symmetric]
    by (cases r)
       (simp_all add: processCard_def T_def [symmetric] catchE_def bindE_def clock_def
          ret_def liftE_def interpolate_def assms r c)
qed

lemma processCard_returns:
  "stringable h \<Longrightarrow>
   \<exists>r w'. processCard sv h p t w = (Inr r, w') \<and> header r = h \<and> promo r = p
           \<and> template r = (if t = Undefined then Str (js ''default'') else t)"
  using processCard_cases [of h sv p t w] by auto

text \<open>
  Three runs: every service answers and the card is uploaded; the upload is reached
  and fails; the upload answers without a \<open>secure_url\<close>.
\<close>

lemma slug_example: "take 20 (underscored (js ''Summer  Sale'')) = js ''Summer_Sale''"
  by (simp add: js_def is_ws_def)

lemma resolve_default:
  "resolveTemplate (Str (js ''default'')) = Inr (Entry (js ''default'') (js ''1:14''))"
  by (simp add: resolveTemplate_def getString_def TEMPLATE_CONFIG_def)

lemma prepareCard_online:
  "prepareCard online (Str (js ''Summer  Sale'')) (Str (js ''50% off'')) (Str (js ''default'')) 0
     = (Inr ([137, 80, 78, 71], \<lparr>stamp = 2, slug = js ''Summer_Sale''\<rparr>), 2)"
proof -
  have ne: "js ''u'' \<noteq> []"
    by (simp add: js_def)
  show ?thesis
    unfolding prepareCard_def resolve_default
    by (simp add: bindE_def liftE_def interpolate_def exportFigmaComponent_def online_def
          throw_def debugWrite_def ret_def addTextOverlay_def createTextSvg_def Let_def
          clock_def slug_example ne)
qed

text \<open>prepareCard does not look at the settings of the upload.\<close>

lemma clock_cong: "dateNow a = dateNow b \<Longrightarrow> clock a = clock b"
  by (rule ext) (simp add: clock_def)

lemma prepareCard_cong:
  assumes "figmaImages a = figmaImages b" "download a = download b"
    "sharpMetadata a = sharpMetadata b" "sharpComposite a = sharpComposite b"
    "writeFile a = writeFile b" "dateNow a = dateNow b" "development a = development b"
  shows "prepareCard a h p t = prepareCard b h p t"
proof -
  have 1: "exportFigmaComponent a = exportFigmaComponent b"
    by (intro ext) (simp add: exportFigmaComponent_def assms cong del: if_weak_cong)
  have 2: "debugWrite a = debugWrite b"
    by (intro ext) (simp add: debugWrite_def assms)
  have 3: "addTextOverlay a = addTextOverlay b"
    by (intro ext) (simp add: addTextOverlay_def assms)
  show ?thesis
    by (simp add: prepareCard_def 1 2 3 clock_cong [OF assms(6)])
qed


lemma prepareCard_nameless: "prepareCard nameless h p t = prepareCard online h p t"
  by (rule prepareCard_cong) (simp_all add: nameless_def)



lemma renderCard_nameless:
  "renderCard nameless (Str (js ''Summer  Sale'')) (Str (js ''50% off'')) (Str (js ''default'')) 0
     = (Inr Undefined, 3)"
  unfolding renderCard_split prepareCard_nameless prepareCard_online
  by (simp add: uploadToCloudinary_def nameless_def online_def)




text \<open>
  When the upload's response has no \<open>secure_url\<close>, the result is a success whose
  \<open>imageUrl\<close> is \<open>undefined\<close>.
\<close>

lemma processCard_nameless:
  "\<exists>t' w'. processCard nameless (Str (js ''Summer  Sale'')) (Str (js ''50% off'')) Undefined 0
     = (Inr \<lparr>success = True, header = Str (js ''Summer  Sale''), promo = Str (js ''50% off''),
             template = Str (js ''default''), imageUrl = Some Undefined, error = None,
             timestamp = t'\<rparr>, w')"
  using processCard_cases [of "Str (js ''Summer  Sale'')" nameless "Str (js ''50% off'')" Undefined 0]
  by (auto simp add: renderCard_nameless)

subsection \<open>processBatch\<close>

lemma batchLoop_done:
  "\<not> i < length cards \<Longrightarrow> batchLoop sv cards i results st = (Inr results, st)"
  by (subst batchLoop.simps) simp

lemma batchLoop_throw:
  "i < length cards \<Longrightarrow>
   processCard sv (headerArg (cards ! i)) (promoArg (cards ! i)) (templateArg (cards ! i)) w
     = (Inl e, w1) \<Longrightarrow>
   batchLoop sv cards i results (w, tr) = (Inl e, (w1, tr @ [callOf (cards ! i)]))"
  by (subst batchLoop.simps) (simp add: Let_def callCard_def callOf_def)

lemma batchLoop_last:
  "i < length cards \<Longrightarrow> \<not> Suc i < length cards \<Longrightarrow>
   processCard sv (headerArg (cards ! i)) (promoArg (cards ! i)) (templateArg (cards ! i)) w
     = (Inr r, w1) \<Longrightarrow>
   batchLoop sv cards i results (w, tr) =
     batchLoop sv cards (Suc i) (results @ [r]) (w1, tr @ [callOf (cards ! i)])"
  by (subst batchLoop.simps) (auto simp add: Let_def callCard_def callOf_def)

lemma batchLoop_more:
  "Suc i < length cards \<Longrightarrow>
   processCard sv (headerArg (cards ! i)) (promoArg (cards ! i)) (templateArg (cards ! i)) w
     = (Inr r, w1) \<Longrightarrow>
   batchLoop sv cards i results (w, tr) =
     batchLoop sv cards (Suc i) (results @ [r])
       (sleep sv 1000 w1, tr @ [callOf (cards ! i), Wait 1000])"
  by (subst batchLoop.simps) (auto simp add: Let_def callCard_def callOf_def timeout_def)

lemma between_Nil: "between d rs = [] \<longleftrightarrow> rs = []"
  by (induction d rs rule: between.induct) auto

lemma between_Cons: "rs \<noteq> [] \<Longrightarrow> between d (r # rs) = r # d # between d rs"
  by (cases rs) simp_all

lemma between_waits:
  "length (filter isWait (between (Wait ms) (map callOf cs))) = length cs - 1"
proof (induction cs rule: induct_list012)
  case (3 c c' cs)
  then show ?case by (simp add: callOf_def)
qed (simp_all add: callOf_def)


lemma reached_Nil: "reached cs = [] \<longleftrightarrow> cs = []"
  by (cases cs) simp_all

lemma reached_all: "list_all printable cs \<Longrightarrow> reached cs = cs"
  by (induction cs) simp_all


lemma replay_call:
  "replay sv (callOf c # es) w =
     replay sv es (snd (processCard sv (headerArg c) (promoArg c) (templateArg c) w))"
  by (simp add: callOf_def)

text \<open>
  Every run of the loop, whether it returns or not: the calls and waits it makes are
  the calls for the records reached, with a wait of 1000 ms between consecutive calls
  and nowhere else, and the world at its end is the one these calls and waits make of
  the world at its start. It returns, with a result of processCard for each record, when
  every record is printable, and throws otherwise.
\<close>

lemma batchLoop_run:
  "\<exists>out. batchLoop sv cards i results (w, tr) =
       (out, (replay sv (between (Wait 1000) (map callOf (reached (drop i cards)))) w,
              tr @ between (Wait 1000) (map callOf (reached (drop i cards)))))
     \<and> (if list_all printable (drop i cards)
        then \<exists>rs. out = Inr (results @ rs) \<and> list_all2 (returnedFor sv) rs (drop i cards)
        else out = Inl (TypeError ''toString''))"
proof (induction "length cards - i" arbitrary: i results w tr)
  case 0
  then show ?case by (simp add: batchLoop_done)
next
  case (Suc n)
  then have i: "i < length cards" and n: "n = length cards - Suc i" by simp_all
  let ?c = "cards ! i"
  have d: "drop i cards = ?c # drop (Suc i) cards"
    using i by (simp add: Cons_nth_drop_Suc)
  show ?case
  proof (cases "printable ?c")
    case False
    then have "processCard sv (headerArg ?c) (promoArg ?c) (templateArg ?c) w
        = (Inl (TypeError ''toString''), w)"
      by (simp add: printable_def processCard_throws)
    then show ?thesis
      using False by (simp add: batchLoop_throw [OF i] d replay_call)
  next
    case True
    then obtain r w1 where
      r: "processCard sv (headerArg ?c) (promoArg ?c) (templateArg ?c) w = (Inr r, w1)"
      using processCard_returns [of "headerArg ?c" sv "promoArg ?c" "templateArg ?c" w]
      unfolding printable_def by blast
    then have rf: "returnedFor sv r ?c"
      unfolding returnedFor_def by blast
    show ?thesis
    proof (cases "Suc i < length cards")
      case more: True
      let ?es = "between (Wait 1000) (map callOf (reached (drop (Suc i) cards)))"
      have ne: "map callOf (reached (drop (Suc i) cards)) \<noteq> []"
        using more by (simp add: reached_Nil)
      have es: "between (Wait 1000) (map callOf (reached (drop i cards)))
          = callOf ?c # Wait 1000 # ?es"
        using True by (simp add: d between_Cons [OF ne])
      obtain out where
        o: "batchLoop sv cards (Suc i) (results @ [r])
              (sleep sv 1000 w1, tr @ [callOf ?c, Wait 1000])
            = (out, (replay sv ?es (sleep sv 1000 w1), (tr @ [callOf ?c, Wait 1000]) @ ?es))"
        and c: "if list_all printable (drop (Suc i) cards)
            then \<exists>rs. out = Inr ((results @ [r]) @ rs)
                   \<and> list_all2 (returnedFor sv) rs (drop (Suc i) cards)
            else out = Inl (TypeError ''toString'')"
        using Suc.hyps(1) [OF n, of "results @ [r]" "sleep sv 1000 w1" "tr @ [callOf ?c, Wait 1000]"]
        by blast
      have 1: "batchLoop sv cards i results (w, tr) =
          (out, (replay sv (between (Wait 1000) (map callOf (reached (drop i cards)))) w,
              tr @ between (Wait 1000) (map callOf (reached (drop i cards)))))"
        unfolding es by (simp add: batchLoop_more [OF more r] o replay_call r)
      have 2: "if list_all printable (drop i cards)
        then \<exists>rs. out = Inr (results @ rs) \<and> list_all2 (returnedFor sv) rs (drop i cards)
        else out = Inl (TypeError ''toString'')"
      proof (cases "list_all printable (drop (Suc i) cards)")
        case all: True
        with c obtain rs where "out = Inr ((results @ [r]) @ rs)"
          "list_all2 (returnedFor sv) rs (drop (Suc i) cards)"
          by auto
        then have "out = Inr (results @ (r # rs))
            \<and> list_all2 (returnedFor sv) (r # rs) (drop i cards)"
          by (simp add: d rf)
        then show ?thesis
          using True all by (auto simp add: d)
      next
        case False
        with c True show ?thesis by (simp add: d)
      qed
      from 1 2 show ?thesis by blast
    next
      case last: False
      then have e: "drop (Suc i) cards = []" by simp
      have es: "between (Wait 1000) (map callOf (reached (drop i cards))) = [callOf ?c]"
        using True by (simp add: d e)
      have 1: "batchLoop sv cards i results (w, tr) =
          (Inr (results @ [r]), (replay sv [callOf ?c] w, tr @ [callOf ?c]))"
        using last by (simp add: batchLoop_last [OF i last r] batchLoop_done replay_call r)
      have "list_all2 (returnedFor sv) [r] (drop i cards)"
        by (simp add: d e rf)
      with 1 True show ?thesis
        unfolding es by (auto simp add: d e)
    qed
  qed
qed

lemma processBatch_run:
  "\<exists>out. processBatch sv cards (w, tr) =
       (out, (replay sv (between (Wait 1000) (map callOf (reached cards))) w,
              tr @ between (Wait 1000) (map callOf (reached cards))))
     \<and> (if list_all printable cards
        then \<exists>results. out = Inr results \<and> list_all2 (returnedFor sv) results cards
        else out = Inl (TypeError ''toString''))"
  using batchLoop_run [of sv cards 0 "[]" w tr]
  by (simp add: processBatch_def cong del: if_weak_cong)

lemma returnedFor_fields:
  "returnedFor sv r c \<Longrightarrow> header r = headerArg c \<and> promo r = promoArg c"
proof -
  assume "returnedFor sv r c"
  then obtain w w' where
    r: "processCard sv (headerArg c) (promoArg c) (templateArg c) w = (Inr r, w')"
    unfolding returnedFor_def by blast
  have "stringable (headerArg c)"
  proof (rule ccontr)
    assume "\<not> stringable (headerArg c)"
    from processCard_throws [OF this, of sv "promoArg c" "templateArg c" w] r
    show False by simp
  qed
  from processCard_returns [OF this, of sv "promoArg c" "templateArg c" w] r
  show ?thesis by auto
qed

text \<open>
  A batch of printable records runs to its end: as many results as records, the result
  at an index being one which processCard returned for the record at that index, with
  \<open>n - 1\<close> waits for \<open>n\<close> records, each made on the world between the calls for
  two consecutive records.
\<close>

lemma processBatch_returns:
  assumes "list_all printable cards"
  shows "\<exists>results. processBatch sv cards (w, tr)
       = (Inr results, (replay sv (between (Wait 1000) (map callOf cards)) w,
                        tr @ between (Wait 1000) (map callOf cards)))
     \<and> length results = length cards
     \<and> (\<forall>i < length cards. returnedFor sv (results ! i) (cards ! i)
           \<and> header (results ! i) = headerArg (cards ! i))
     \<and> length (filter isWait (between (Wait 1000) (map callOf cards))) = length cards - 1"
proof -
  from processBatch_run [of sv cards w tr] assms
  obtain results where
    r: "processBatch sv cards (w, tr) =
       (Inr results, (replay sv (between (Wait 1000) (map callOf cards)) w,
              tr @ between (Wait 1000) (map callOf cards)))"
    and a: "list_all2 (returnedFor sv) results cards"
    by (auto simp add: reached_all)
  from a have "length results = length cards"
    and "\<forall>i < length cards. returnedFor sv (results ! i) (cards ! i)"
    by (simp_all add: list_all2_conv_all_nth)
  with r show ?thesis
    by (auto simp add: between_waits returnedFor_fields)
qed

lemma printable_request: "printable (request h p)"
  by (simp add: printable_def request_def headerArg_def js_or_def)

lemma printable_unprintable: "\<not> printable unprintable"
  by (simp add: printable_def unprintable_def headerArg_def js_or_def)

text \<open>
  A batch of two records, the first with a header that cannot be converted to a string:
  the call of processCard for the first record throws, and processBatch with it.
\<close>

lemma processBatch_unprintable:
  "processBatch sv [unprintable, request ''New'' ''Now''] (w, tr)
     = (Inl (TypeError ''toString''), (w, tr @ [callOf unprintable]))"
  using processBatch_run [of sv "[unprintable, request ''New'' ''Now'']" w tr]
  by (auto simp add: printable_unprintable replay_call processCard_throws
        printable_def [symmetric])

text \<open>
  C1 fails on the code. For the batch of \<open>unprintable\<close> and a second, ordinary record
  processBatch throws and returns no result, neither for the record that fails nor for
  the other; the second record alone gives its result.
\<close>

theorem processBatch_no_results:
  "fst (processBatch sv [unprintable, request ''New'' ''Now''] (w, tr))
     = Inl (TypeError ''toString'')
   \<and> (\<exists>results st. processBatch sv [request ''New'' ''Now''] (w, tr) = (Inr results, st)
        \<and> length results = 1 \<and> header (results ! 0) = Str (js ''New''))"
proof -
  have "list_all printable [request ''New'' ''Now'']"
    by (simp add: printable_request)
  from processBatch_returns [OF this, of sv w tr]
  have "\<exists>results st. processBatch sv [request ''New'' ''Now''] (w, tr) = (Inr results, st)
        \<and> length results = 1 \<and> header (results ! 0) = Str (js ''New'')"
    by (auto simp add: request_def headerArg_def js_or_def js_def)
  then show ?thesis
    by (simp add: processBatch_unprintable)
qed

text \<open>
  C7 fails on the code. For the same batch of two records processBatch makes one call
  of processCard and no wait, and leaves the world as it was: the timer is not started,
  where one wait is claimed. For two ordinary records it waits once, for 1000 ms, on
  the world which the first call leaves, before the second call.
\<close>

theorem processBatch_no_wait:
  "snd (processBatch sv [unprintable, request ''New'' ''Now''] (w, tr))
     = (w, tr @ [callOf unprintable])
   \<and> filter isWait [callOf unprintable] = []
   \<and> (\<exists>results. processBatch sv [request ''a'' ''b'', request ''New'' ''Now''] (w, tr)
        = (Inr results,
           (replay sv [callOf (request ''a'' ''b''), Wait 1000, callOf (request ''New'' ''Now'')] w,
            tr @ [callOf (request ''a'' ''b''), Wait 1000, callOf (request ''New'' ''Now'')])))"
proof -
  have "list_all printable [request ''a'' ''b'', request ''New'' ''Now'']"
    by (simp add: printable_request)
  from processBatch_returns [OF this, of sv w tr]
  have "\<exists>results. processBatch sv [request ''a'' ''b'', request ''New'' ''Now''] (w, tr)
        = (Inr results,
           (replay sv [callOf (request ''a'' ''b''), Wait 1000, callOf (request ''New'' ''Now'')] w,
            tr @ [callOf (request ''a'' ''b''), Wait 1000, callOf (request ''New'' ''Now'')]))"
    by auto
  then show ?thesis
    by (simp add: processBatch_unprintable callOf_def)
qed



subsection \<open>Template resolution\<close>

lemma resolveTemplate_returns:
  "stringable t \<Longrightarrow> \<exists>m. resolveTemplate t = Inr m \<and> m \<noteq> Absent"
  by (cases t rule: getMember.cases)
     (simp_all add: resolveTemplate_def getString_def TEMPLATE_CONFIG_def)

lemma resolveTemplate_throws: "resolveTemplate (Obj None) = Inl (TypeError ''toString'')"
  by (simp add: resolveTemplate_def)

lemma resolveTemplate_unknown:
  "s \<notin> set (map fst TEMPLATE_CONFIG) \<Longrightarrow> s \<notin> set Object_prototype \<Longrightarrow>
   resolveTemplate (Str s) = Inr (Entry (js ''default'') (js ''1:14''))"
  by (auto simp add: resolveTemplate_def getString_def TEMPLATE_CONFIG_def split: option.splits)

text \<open>
  C8 fails on the code for a name which \<open>Object.prototype\<close> defines: for the template
  \<open>constructor\<close> line 246 yields the inherited member, not the \<open>default\<close> entry, and
  its \<open>nodeId\<close> is \<open>undefined\<close>.
\<close>

theorem resolveTemplate_constructor:
  "resolveTemplate (Str (js ''constructor'')) = Inr (Inherited (js ''constructor''))
   \<and> resolveTemplate (Str (js ''constructor'')) \<noteq> Inr (getString (js ''default''))
   \<and> map_sum id nodeIdOf (resolveTemplate (Str (js ''constructor''))) = Inr (Inr Undefined)"
  by (simp add: resolveTemplate_def getString_def TEMPLATE_CONFIG_def Object_prototype_def js_def)


end
